theory Spec2Isabelle
  imports Complex_Main "HOL-Library.Sublist"
begin

section \<open>The FireEye engine-out scenario (Tools/autotest/fireeye.py)\<close>

text \<open>
  The script drives a vehicle through a test-suite object: every \<^verbatim>\<open>self.xxx(...)\<close>
  statement is a call on an external collaborator that either returns or raises.
  The embedding keeps the script as it is written (one statement, one step), makes
  the exception a value of the result, and records every call in a transcript, so
  that the order of the calls is a property of the final state.
\<close>

subsection \<open>Data\<close>

text \<open>\<^verbatim>\<open>mavutil.location(lat, lng, alt, heading)\<close>.\<close>

record location =
  loc_lat :: real
  loc_lng :: real
  loc_alt :: real
  loc_heading :: real

text \<open>
  The texts the script builds. A literal is \<open>Text\<close>; a formatted string keeps the
  values that are formatted into it (number formatting is not modelled):
  \<open>BasicMissionText heading is_guided lat lng\<close> is
  \<^verbatim>\<open>f"Basic mission test with heading {heading:.0f} and guided|rally {lat:.6f}, {lng:.6f}"\<close>,
  \<open>ChangedText p b a\<close> is \<^verbatim>\<open>f"{p} changed from {b} to {a}"\<close>, and \<open>CopyingText\<close> is
  \<^verbatim>\<open>"Copying (%s) to (%s)" % (source, dest)\<close>.
\<close>

datatype message =
    Text string
  | BasicMissionText int bool real real
  | ChangedText string real real
  | CopyingText

text \<open>The exceptions: the three of the test suite, the two the script itself can
  raise, and whatever else a collaborator raises.\<close>

datatype error =
    AutoTestTimeoutException
  | NotAchievedException
  | PreconditionFailedException
  | ValueError message
  | KeyError string
  | OtherException string

datatype mav_cmd = MAV_CMD_DO_ENGINE_CONTROL

text \<open>
  One constructor for each method the script calls, with the arguments it passes.
  \<open>MissionItemIntSend loc\<close> is the \<^verbatim>\<open>mission_item_int_send\<close> of \<^verbatim>\<open>do_guided\<close>: its
  fixed fields (sequence 0, relative-altitude frame, waypoint command, current 2)
  are constants of the source and its position fields are computed from \<open>loc\<close>.
  A timeout that the call does not pass (the helper's default) is \<open>None\<close>.
\<close>

datatype call =
    StartSubtest message
  | EndSubtest message
  | Progress message
  | DisarmVehicle bool
  | ArmVehicle
  | RebootSitl
  | RepeatedlyApplyParameterFile string
  | SetRc nat nat
  | ChangeMode string
  | RunCmd mav_cmd int
  | WaitRpm nat nat nat
  | WaitReadyToArm
  | WaitNotReadyToArm
  | WaitCurrentWaypoint nat nat
  | WaitHeading int nat nat
  | WaitMode string
  | WaitText string
  | WaitDisarmed "nat option"
  | DelaySimTime nat
  | MissionItemIntSend location
  | UploadRallyPointsFromLocations "location list"
  | SetParameter string real
  | DownloadParameters
  | MavLocation
  | LoadMission string
  | OsMkdir
  | ShutilCopy
  | InstallScript string
  | InstallAppletScript string
  | RemoveInstalledModules string
  | RemoveInstalledScript string

text \<open>A downloaded parameter set: a Python dict, in insertion order.\<close>

type_synonym params = "(string \<times> real) list"

datatype reply = Returned | Raised error | Parameters params | Position location

text \<open>The transcript: each call with what came back, the time it was made at and
  the time it came back at.\<close>

record event =
  action :: call
  outcome :: reply
  started :: nat
  stamp :: nat

record session =
  trace :: "event list"
  clock :: nat

text \<open>
  Everything outside the script: the vehicle, the simulator, the test-suite helpers
  and the Python runtime. Each answer may depend on all that happened before.
  \<open>raises\<close> is the exception a call ends in, if any; \<open>latency\<close> is the time the call
  takes, for a wait the time until its condition first holds; \<open>parameters\<close> and
  \<open>position\<close> are what \<^verbatim>\<open>download_parameters\<close> and \<^verbatim>\<open>self.mav.location()\<close> return;
  \<open>get_distance\<close> is the distance the test suite computes between two locations;
  \<open>random_sample\<close> is the value of \<^verbatim>\<open>random.sample(range(360), 4)\<close>;
  \<open>destdir_exists\<close> is \<^verbatim>\<open>os.path.exists(destdir)\<close> and \<open>source_system\<close> is
  \<^verbatim>\<open>self.mav.source_system\<close>.
\<close>

record world =
  raises :: "event list \<Rightarrow> call \<Rightarrow> error option"
  latency :: "event list \<Rightarrow> call \<Rightarrow> nat"
  parameters :: "event list \<Rightarrow> params"
  position :: "event list \<Rightarrow> location"
  get_distance :: "location \<Rightarrow> location \<Rightarrow> real"
  random_sample :: "int list"
  destdir_exists :: bool
  source_system :: nat

subsection \<open>Statements that may raise\<close>

type_synonym 'a prog = "session \<Rightarrow> (error + 'a) \<times> session"

definition return :: "'a \<Rightarrow> 'a prog" where
  "return x s = (Inr x, s)"

definition raise :: "error \<Rightarrow> 'a prog" where
  "raise e s = (Inl e, s)"

definition bind :: "'a prog \<Rightarrow> ('a \<Rightarrow> 'b prog) \<Rightarrow> 'b prog" where
  "bind p f s = (case p s of (Inl e, s') \<Rightarrow> (Inl e, s') | (Inr x, s') \<Rightarrow> f x s')"

text \<open>A block of statements: the first exception leaves the block.\<close>

fun block :: "unit prog list \<Rightarrow> unit prog" where
  "block [] s = (Inr (), s)"
| "block (p # ps) s = (case p s of (Inl e, s') \<Rightarrow> (Inl e, s') | (Inr _, s') \<Rightarrow> block ps s')"

text \<open>\<^verbatim>\<open>if b: p\<close>.\<close>

definition if_then :: "bool \<Rightarrow> unit prog \<Rightarrow> unit prog" where
  "if_then b p = (if b then p else return ())"

definition calls :: "session \<Rightarrow> call list" where
  "calls s = map action (trace s)"

definition logged :: "call \<Rightarrow> reply \<Rightarrow> nat \<Rightarrow> session \<Rightarrow> session" where
  "logged c r d s =
     s\<lparr>trace := trace s @
         [\<lparr>action = c, outcome = r, started = clock s, stamp = clock s + d\<rparr>],
       clock := clock s + d\<rparr>"

text \<open>The timeout a call passes explicitly (\<^verbatim>\<open>timeout=...\<close>).\<close>

fun timeout_of :: "call \<Rightarrow> nat option" where
  "timeout_of (WaitCurrentWaypoint n t) = Some t"
| "timeout_of (WaitHeading h a t) = Some t"
| "timeout_of (WaitDisarmed t) = t"
| "timeout_of c = None"

text \<open>
  Modelled from the spec: the wait helpers of \<^verbatim>\<open>vehicle_test_suite\<close> are not part of
  this file. A wait returns at the first instant its condition holds, or fails with
  a timeout error once its bound has expired; a call ends in whatever exception its
  collaborator raises. \<open>transact w c ok\<close> makes the call \<open>c\<close> whose normal reply is
  \<open>ok\<close>.
\<close>

definition transact :: "world \<Rightarrow> call \<Rightarrow> reply \<Rightarrow> unit prog" where
  "transact w c ok s =
     (let d = latency w (trace s) c in
      case raises w (trace s) c of
        Some e \<Rightarrow> (Inl e, logged c (Raised e) d s)
      | None \<Rightarrow>
          (case timeout_of c of
             None \<Rightarrow> (Inr (), logged c ok d s)
           | Some t \<Rightarrow>
               if t < d
               then (Inl AutoTestTimeoutException, logged c (Raised AutoTestTimeoutException) t s)
               else (Inr (), logged c ok d s)))"

definition perform :: "world \<Rightarrow> call \<Rightarrow> unit prog" where
  "perform w c = transact w c Returned"

text \<open>\<^verbatim>\<open>params, _ = self.download_parameters(self.sysid_thismav(), 1)\<close>.\<close>

definition download_parameters :: "world \<Rightarrow> params prog" where
  "download_parameters w s =
     (let ps = parameters w (trace s) in
      case transact w DownloadParameters (Parameters ps) s of
        (Inl e, s') \<Rightarrow> (Inl e, s')
      | (Inr _, s') \<Rightarrow> (Inr ps, s'))"

text \<open>\<^verbatim>\<open>self.mav.location()\<close>.\<close>

definition mav_location :: "world \<Rightarrow> location prog" where
  "mav_location w s =
     (let l = position w (trace s) in
      case transact w MavLocation (Position l) s of
        (Inl e, s') \<Rightarrow> (Inl e, s')
      | (Inr _, s') \<Rightarrow> (Inr l, s'))"

text \<open>
  Modelled from the spec: \<^verbatim>\<open>assert_distance\<close> of \<^verbatim>\<open>vehicle_test_suite\<close> is not part of
  this file. The distance between the two locations has to lie within
  \<open>[min_distance, max_distance]\<close>; a violation is a hard assertion failure.
\<close>

definition assert_distance :: "world \<Rightarrow> location \<Rightarrow> location \<Rightarrow> real \<Rightarrow> real \<Rightarrow> unit prog" where
  "assert_distance w loc1 loc2 min_distance max_distance =
     (let dist = get_distance w loc1 loc2 in
      if dist < min_distance \<or> dist > max_distance then raise NotAchievedException
      else return ())"

subsection \<open>\<^verbatim>\<open>reset_aircraft\<close> and \<^verbatim>\<open>do_guided\<close>\<close>

definition reset_aircraft :: "world \<Rightarrow> unit prog" where
  "reset_aircraft w = block
     [perform w (DisarmVehicle True),
      perform w RebootSitl,
      perform w (RepeatedlyApplyParameterFile ''default_params/fireeye-engout.parm''),
      perform w (SetRc 3 1000),
      perform w (ChangeMode ''QHOVER''),
      perform w (RunCmd MAV_CMD_DO_ENGINE_CONTROL 1),
      perform w (WaitRpm 2 1000 3000),
      perform w WaitReadyToArm]"

definition do_guided :: "world \<Rightarrow> location \<Rightarrow> unit prog" where
  "do_guided w location = block
     [perform w (ChangeMode ''GUIDED''),
      perform w (MissionItemIntSend location)]"

subsection \<open>\<^verbatim>\<open>basic_auto_mission\<close>, the closure of \<^verbatim>\<open>EngineOutScript\<close>\<close>

text \<open>\<^verbatim>\<open>if qassist_timeout:\<close> is Python truth of a number: the number is not zero.\<close>

definition subtest_message :: "int \<Rightarrow> location \<Rightarrow> bool \<Rightarrow> int \<Rightarrow> int \<Rightarrow> message" where
  "subtest_message heading target is_guided qassist_timeout qrtl_timeout =
     (let m0 = BasicMissionText heading is_guided (loc_lat target) (loc_lng target);
          m1 = (if qassist_timeout \<noteq> 0 then Text ''Testing that the Q_ASSIST timeout works'' else m0)
      in if qrtl_timeout \<noteq> 0 then Text ''Testing that the QRTL timeout works'' else m1)"

definition basic_auto_mission ::
  "world \<Rightarrow> int \<Rightarrow> location \<Rightarrow> bool \<Rightarrow> real \<Rightarrow> real \<Rightarrow> int \<Rightarrow> int \<Rightarrow> unit prog" where
  "basic_auto_mission w heading target is_guided min_distance max_distance
       qassist_timeout qrtl_timeout = block
     [perform w (StartSubtest
        (subtest_message heading target is_guided qassist_timeout qrtl_timeout)),
      reset_aircraft w,
      if_then (\<not> is_guided) (perform w (UploadRallyPointsFromLocations [target])),
      if_then (qassist_timeout \<noteq> 0)
        (perform w (SetParameter ''ENGOUT_QAST_TIME'' (of_int qassist_timeout))),
      if_then (qrtl_timeout \<noteq> 0)
        (perform w (SetParameter ''ENGOUT_QRTL_TIME'' (of_int qrtl_timeout))),
      perform w (ChangeMode ''AUTO''),
      perform w ArmVehicle,
      perform w (SetRc 3 1500),
      perform w (WaitCurrentWaypoint 4 600),
      perform w (WaitHeading heading 5 300),
      perform w (RunCmd MAV_CMD_DO_ENGINE_CONTROL 0),
      if_then is_guided (block
        [perform w (WaitMode ''RTL''),
         perform w (DelaySimTime 10),
         do_guided w target]),
      (if qassist_timeout \<noteq> 0 then perform w (WaitText ''Q_ASSIST for too long'')
       else if qrtl_timeout \<noteq> 0 then perform w (WaitText ''QRTL for too long'')
       else return ()),
      perform w (WaitDisarmed (Some 600)),
      bind (mav_location w) (\<lambda>here.
        assert_distance w target here min_distance max_distance),
      perform w (EndSubtest
        (subtest_message heading target is_guided qassist_timeout qrtl_timeout))]"

subsection \<open>\<^verbatim>\<open>EngineOutScript\<close>\<close>

definition rally_loc :: location where
  "rally_loc = \<lparr>loc_lat = 36.8164241, loc_lng = -2.868918, loc_alt = 5000, loc_heading = 0\<rparr>"

definition guided_loc :: location where
  "guided_loc = \<lparr>loc_lat = 36.8192676, loc_lng = -2.8719136, loc_alt = 5000, loc_heading = 0\<rparr>"

text \<open>Installing the scripts, rebooting, the fence, the ground-station id, the mission.\<close>

definition install_and_load :: "world \<Rightarrow> unit prog" where
  "install_and_load w = block
     [if_then (\<not> destdir_exists w) (perform w OsMkdir),
      perform w (Progress CopyingText),
      perform w ShutilCopy,
      perform w (InstallScript ''EFI_SITL.lua''),
      perform w (InstallAppletScript ''engine_out.lua''),
      perform w RebootSitl,
      perform w (SetParameter ''FENCE_ENABLE'' 0),
      perform w (SetParameter ''SYSID_MYGCS'' (of_nat (source_system w))),
      perform w (LoadMission ''mission.waypoints'')]"

text \<open>"Test guided override".\<close>

definition guided_override :: "world \<Rightarrow> unit prog" where
  "guided_override w = block
     [perform w (UploadRallyPointsFromLocations [rally_loc]),
      basic_auto_mission w 270 guided_loc True 0 50 0 0]"

text \<open>\<^verbatim>\<open>list(range(start, stop, step))\<close> for a positive step.\<close>

definition py_range :: "int \<Rightarrow> int \<Rightarrow> int \<Rightarrow> int list" where
  "py_range start stop step =
     map (\<lambda>k. start + int k * step) [0 ..< nat ((stop - start + step - 1) div step)]"

text \<open>"Test regular landings from many random angles".\<close>

definition headings :: "world \<Rightarrow> int list" where
  "headings w = py_range 0 360 90 @ random_sample w"

definition heading_sweep :: "world \<Rightarrow> unit prog" where
  "heading_sweep w =
     block (map (\<lambda>heading. basic_auto_mission w heading rally_loc False 0 50 0 0) (headings w))"

text \<open>"Test the Q_ASSIST timeout" and "Test the QRTL timeout".\<close>

definition qassist_timeout_test :: "world \<Rightarrow> unit prog" where
  "qassist_timeout_test w = basic_auto_mission w 270 rally_loc False 0 300 1 0"

definition qrtl_timeout_test :: "world \<Rightarrow> unit prog" where
  "qrtl_timeout_test w = basic_auto_mission w 270 rally_loc False 50 300 0 5"

text \<open>"Test detection messages, and the backup and restore of all parameters".\<close>

definition param_ignore_filter :: "string list" where
  "param_ignore_filter = [''STAT'', ''BARO'', ''SERVO'', ''Q_P_ACCZ_IMAX'']"

text \<open>\<^verbatim>\<open>any(p.startswith(s) for s in param_ignore_filter)\<close>.\<close>

definition ignored :: "string \<Rightarrow> bool" where
  "ignored p = list_ex (\<lambda>s. prefix s p) param_ignore_filter"

text \<open>\<^verbatim>\<open>d[p]\<close>: a missing key raises.\<close>

definition subscript :: "params \<Rightarrow> string \<Rightarrow> real prog" where
  "subscript d p = (case map_of d p of None \<Rightarrow> raise (KeyError p) | Some v \<Rightarrow> return v)"

text \<open>The first loop over \<^verbatim>\<open>params_before\<close>: differences are printed.\<close>

fun print_differences :: "world \<Rightarrow> params \<Rightarrow> params \<Rightarrow> string list \<Rightarrow> unit prog" where
  "print_differences w params_before params_after [] = return ()"
| "print_differences w params_before params_after (p # ps) =
     (if ignored p then print_differences w params_before params_after ps
      else bind (subscript params_before p) (\<lambda>b.
           bind (subscript params_after p) (\<lambda>a.
           bind (if_then (b \<noteq> a) (perform w (Progress (ChangedText p b a)))) (\<lambda>_.
           print_differences w params_before params_after ps))))"

text \<open>The second loop over \<^verbatim>\<open>params_before\<close>: a difference raises.\<close>

fun assert_same :: "params \<Rightarrow> params \<Rightarrow> string list \<Rightarrow> unit prog" where
  "assert_same params_before params_after [] = return ()"
| "assert_same params_before params_after (p # ps) =
     (if ignored p then assert_same params_before params_after ps
      else bind (subscript params_before p) (\<lambda>b.
           bind (subscript params_after p) (\<lambda>a.
           bind (if_then (b \<noteq> a) (raise (ValueError (ChangedText p b a)))) (\<lambda>_.
           assert_same params_before params_after ps))))"

text \<open>Iterating over a dict visits its keys.\<close>

definition keys :: "params \<Rightarrow> string list" where
  "keys d = map fst d"

definition backup_restore_name :: message where
  "backup_restore_name = Text ''Testing detections and parameters backup/restore''"

definition params_backup_restore :: "world \<Rightarrow> unit prog" where
  "params_backup_restore w =
     bind (block [perform w (StartSubtest backup_restore_name), reset_aircraft w]) (\<lambda>_.
     bind (download_parameters w) (\<lambda>params_before.
     bind (block
       [perform w (ChangeMode ''AUTO''),
        perform w ArmVehicle,
        perform w (SetRc 3 1500),
        perform w (WaitCurrentWaypoint 4 600),
        perform w (RunCmd MAV_CMD_DO_ENGINE_CONTROL 0),
        perform w (WaitText ''Engine out''),
        perform w (DelaySimTime 1)]) (\<lambda>_.
     bind (download_parameters w) (\<lambda>params_after.
     bind (block
       [print_differences w params_before params_after (keys params_before),
        perform w (RunCmd MAV_CMD_DO_ENGINE_CONTROL 1),
        perform w (WaitText ''Engine running''),
        perform w (DelaySimTime 1)]) (\<lambda>_.
     bind (download_parameters w) (\<lambda>params_after.
     block
       [assert_same params_before params_after (keys params_before),
        perform w (DisarmVehicle True),
        perform w (WaitDisarmed None),
        perform w (EndSubtest backup_restore_name)]))))))"

text \<open>"Test prearm checks".\<close>

definition prearm_checks :: "world \<Rightarrow> unit prog" where
  "prearm_checks w = block
     [perform w (StartSubtest (Text ''Testing prearm checks'')),
      reset_aircraft w,
      perform w (SetParameter ''GLIDE_SPD'' 1),
      perform w WaitNotReadyToArm,
      perform w (SetParameter ''GLIDE_SPD'' 22),
      perform w WaitReadyToArm,
      perform w (SetParameter ''GLIDE_SPD'' 100),
      perform w WaitNotReadyToArm,
      perform w (SetParameter ''GLIDE_SPD'' 22),
      perform w WaitReadyToArm,
      perform w (RunCmd MAV_CMD_DO_ENGINE_CONTROL 0),
      perform w WaitNotReadyToArm,
      perform w (RunCmd MAV_CMD_DO_ENGINE_CONTROL 1),
      perform w WaitReadyToArm,
      perform w (EndSubtest (Text ''Testing prearm checks''))]"

definition remove_installed :: "world \<Rightarrow> unit prog" where
  "remove_installed w = block
     [perform w (RemoveInstalledModules ''utilities.lua''),
      perform w (RemoveInstalledScript ''EFI_SITL.lua''),
      perform w (RemoveInstalledScript ''engine_out.lua'')]"

text \<open>The sub-scenarios, in the order of the source.\<close>

definition subscenarios :: "world \<Rightarrow> unit prog list" where
  "subscenarios w =
     [guided_override w,
      heading_sweep w,
      qassist_timeout_test w,
      qrtl_timeout_test w,
      params_backup_restore w,
      prearm_checks w]"

definition EngineOutScript :: "world \<Rightarrow> unit prog" where
  "EngineOutScript w = block ([install_and_load w] @ subscenarios w @ [remove_installed w])"

definition start :: session where
  "start = \<lparr>trace = [], clock = 0\<rparr>"

section \<open>Vocabulary of the properties\<close>

text \<open>The exception a call ends in: the one its collaborator raises, or the timeout
  of a wait whose condition comes later than its bound.\<close>

definition fault :: "world \<Rightarrow> event list \<Rightarrow> call \<Rightarrow> error option" where
  "fault w h c =
     (case raises w h c of
        Some e \<Rightarrow> Some e
      | None \<Rightarrow>
          (case timeout_of c of
             None \<Rightarrow> None
           | Some t \<Rightarrow> if t < latency w h c then Some AutoTestTimeoutException else None))"

text \<open>
  \<open>follows p cs\<close>: whatever the world does, the calls that \<open>p\<close> makes are an initial
  segment of \<open>cs\<close>, in that order, and all of \<open>cs\<close> when \<open>p\<close> returns normally.
\<close>

definition follows :: "'a prog \<Rightarrow> call list \<Rightarrow> bool" where
  "follows p cs \<longleftrightarrow>
     (\<forall>s r s'. p s = (r, s') \<longrightarrow>
        (\<exists>n\<le>length cs. calls s' = calls s @ take n cs \<and> (\<forall>x. r = Inr x \<longrightarrow> n = length cs)))"

text \<open>
  The sequence the specification gives for \<^verbatim>\<open>reset_aircraft\<close>: force-disarm, restart the
  vehicle process, reapply the baseline parameter file, throttle stick to idle, a
  hover-capable mode, engine start, wait for the RPM band, wait until armable.
\<close>

definition spec_reset_order :: "call list" where
  "spec_reset_order =
     [DisarmVehicle True,
      RebootSitl,
      RepeatedlyApplyParameterFile ''default_params/fireeye-engout.parm'',
      SetRc 3 1000,
      ChangeMode ''QHOVER'',
      RunCmd MAV_CMD_DO_ENGINE_CONTROL 1,
      WaitRpm 2 1000 3000,
      WaitReadyToArm]"

text \<open>
  The step order the specification gives for \<^verbatim>\<open>basic_auto_mission\<close>: reset; the rally
  point unless guided; the timeout overrides; AUTO, arm, cruise throttle; the waypoint
  wait; the heading wait; the engine failure; when guided, the wait for RTL, the
  settling delay and the diversion; the fallback text; the disarm wait and the
  distance check.
\<close>

definition spec_mission_order :: "int \<Rightarrow> location \<Rightarrow> bool \<Rightarrow> int \<Rightarrow> int \<Rightarrow> call list" where
  "spec_mission_order heading target is_guided qassist_timeout qrtl_timeout =
     [StartSubtest (subtest_message heading target is_guided qassist_timeout qrtl_timeout)] @
     spec_reset_order @
     (if is_guided then [] else [UploadRallyPointsFromLocations [target]]) @
     (if qassist_timeout \<noteq> 0
      then [SetParameter ''ENGOUT_QAST_TIME'' (of_int qassist_timeout)] else []) @
     (if qrtl_timeout \<noteq> 0
      then [SetParameter ''ENGOUT_QRTL_TIME'' (of_int qrtl_timeout)] else []) @
     [ChangeMode ''AUTO'', ArmVehicle, SetRc 3 1500,
      WaitCurrentWaypoint 4 600,
      WaitHeading heading 5 300,
      RunCmd MAV_CMD_DO_ENGINE_CONTROL 0] @
     (if is_guided
      then [WaitMode ''RTL'', DelaySimTime 10, ChangeMode ''GUIDED'', MissionItemIntSend target]
      else []) @
     (if qassist_timeout \<noteq> 0 then [WaitText ''Q_ASSIST for too long'']
      else if qrtl_timeout \<noteq> 0 then [WaitText ''QRTL for too long''] else []) @
     [WaitDisarmed (Some 600), MavLocation,
      EndSubtest (subtest_message heading target is_guided qassist_timeout qrtl_timeout)]"

text \<open>The assertions the specification gives for the prearm sweep: each change is
  followed at once by its armability wait.\<close>

definition spec_prearm_order :: "call list" where
  "spec_prearm_order =
     [StartSubtest (Text ''Testing prearm checks'')] @
     spec_reset_order @
     [SetParameter ''GLIDE_SPD'' 1, WaitNotReadyToArm,
      SetParameter ''GLIDE_SPD'' 22, WaitReadyToArm,
      SetParameter ''GLIDE_SPD'' 100, WaitNotReadyToArm,
      SetParameter ''GLIDE_SPD'' 22, WaitReadyToArm,
      RunCmd MAV_CMD_DO_ENGINE_CONTROL 0, WaitNotReadyToArm,
      RunCmd MAV_CMD_DO_ENGINE_CONTROL 1, WaitReadyToArm,
      EndSubtest (Text ''Testing prearm checks'')]"

text \<open>The waits for a text event.\<close>

fun is_wait_text :: "call \<Rightarrow> bool" where
  "is_wait_text (WaitText t) = True"
| "is_wait_text c = False"

subsection \<open>Worlds to run the script in\<close>

text \<open>A world where nothing raises, every call takes one time unit and the vehicle
  lands 50 units from the target.\<close>

definition calm :: world where
  "calm = \<lparr>raises = (\<lambda>h c. None), latency = (\<lambda>h c. 1),
     parameters = (\<lambda>h. [(''GLIDE_SPD'', 22), (''STAT_RUNTIME'', of_nat (length h))]),
     position = (\<lambda>h. rally_loc), get_distance = (\<lambda>a b. 50),
     random_sample = [7, 123, 200, 359], destdir_exists = True, source_system = 250\<rparr>"


subsection \<open>Landing\<close>

text \<open>The end of the transcript of a mission that has returned: the wait for disarm
  and the location read, followed by one last call.\<close>

definition landing :: "session \<Rightarrow> (event \<times> event) option" where
  "landing s = (case rev (trace s) of e3 # e2 # e1 # _ \<Rightarrow> Some (e1, e2) | _ \<Rightarrow> None)"

text \<open>
  What a mission that returns has seen: the wait for disarm returned normally, within
  600 time units of the moment it was made, and the location read afterwards lies
  within the distance band of the target.
\<close>

definition touchdown :: "world \<Rightarrow> location \<Rightarrow> real \<Rightarrow> real \<Rightarrow> session \<Rightarrow> bool" where
  "touchdown w target min_distance max_distance s =
     (case landing s of
        None \<Rightarrow> False
      | Some (e1, e2) \<Rightarrow>
          action e1 = WaitDisarmed (Some 600) \<and> outcome e1 = Returned \<and>
          stamp e1 \<le> started e1 + 600 \<and>
          action e2 = MavLocation \<and>
          (case outcome e2 of
             Position p \<Rightarrow>
               min_distance \<le> get_distance w target p \<and> get_distance w target p \<le> max_distance
           | _ \<Rightarrow> False))"

text \<open>The time the last call \<open>c\<close> of a transcript came back at.\<close>

definition last_stamp :: "call \<Rightarrow> event list \<Rightarrow> nat option" where
  "last_stamp c tr =
     (case filter (\<lambda>e. action e = c) tr of [] \<Rightarrow> None | e # es \<Rightarrow> Some (stamp (last (e # es))))"

text \<open>A slow flight: 500 time units to the waypoint, 200 to the heading, 400 to land.\<close>

definition slow :: world where
  "slow = calm\<lparr>latency :=
     (\<lambda>h c. case c of
        WaitCurrentWaypoint n t \<Rightarrow> 500
      | WaitHeading a b t \<Rightarrow> 200
      | WaitDisarmed t \<Rightarrow> 400
      | _ \<Rightarrow> 1)\<rparr>"

text \<open>The disarm wait came back within \<open>limit\<close> time units of the moment the
  switch to AUTO came back.\<close>

definition disarmed_within_of_auto :: "nat \<Rightarrow> session \<Rightarrow> bool" where
  "disarmed_within_of_auto limit s =
     (case (last_stamp (ChangeMode ''AUTO'') (trace s),
            last_stamp (WaitDisarmed (Some 600)) (trace s)) of
        (Some a, Some d) \<Rightarrow> d \<le> a + limit
      | _ \<Rightarrow> False)"


subsection \<open>Failing sub-scenarios\<close>

text \<open>The calls that open a sub-scenario.\<close>

fun is_start_subtest :: "call \<Rightarrow> bool" where
  "is_start_subtest (StartSubtest m) = True"
| "is_start_subtest c = False"

text \<open>The vehicle never switches to RTL after the engine failure.\<close>

definition no_rtl :: world where
  "no_rtl = calm\<lparr>raises :=
     (\<lambda>h c. if c = WaitMode ''RTL'' then Some AutoTestTimeoutException else None)\<rparr>"

subsection \<open>Parameter downloads\<close>

text \<open>The parameter sets a transcript has downloaded, in order.\<close>

fun downloads :: "event list \<Rightarrow> params list" where
  "downloads [] = []"
| "downloads (e # es) =
     (case outcome e of Parameters ps \<Rightarrow> ps # downloads es | _ \<Rightarrow> downloads es)"

text \<open>\<open>quiet p\<close>: \<open>p\<close> downloads nothing.\<close>

definition quiet :: "'a prog \<Rightarrow> bool" where
  "quiet p \<longleftrightarrow> (\<forall>s r s'. p s = (r, s') \<longrightarrow> downloads (trace s') = downloads (trace s))"

text \<open>A parameter that has changed by the time of the third download.\<close>

definition drift :: world where
  "drift = calm\<lparr>parameters :=
     (\<lambda>h. [(''GLIDE_SPD'', if length h < 20 then 22 else 25),
           (''STAT_RUNTIME'', of_nat (length h))])\<rparr>"

text \<open>The first name of the pre-failure download, in its order, that is not ignored
  and whose entry after the restore is missing or different.\<close>

definition first_offender :: "params \<Rightarrow> params \<Rightarrow> string option" where
  "first_offender before after =
     find (\<lambda>k. \<not> ignored k \<and> map_of after k \<noteq> map_of before k) (keys before)"

section \<open>Properties\<close>

subsection \<open>Calls and blocks\<close>

lemma calls_logged: "calls (logged c r d s) = calls s @ [c]"
  by (simp add: calls_def logged_def)

lemma trace_logged:
  "trace (logged c r d s) =
     trace s @ [\<lparr>action = c, outcome = r, started = clock s, stamp = clock s + d\<rparr>]"
  by (simp add: logged_def)

lemma clock_logged: "clock (logged c r d s) = clock s + d"
  by (simp add: logged_def)

lemma transact_Inr:
  "transact w c ok s = (Inr x, s') \<longleftrightarrow>
     fault w (trace s) c = None \<and> s' = logged c ok (latency w (trace s) c) s"
  by (auto simp: transact_def fault_def Let_def split: option.splits if_splits)

lemma transact_Inl:
  "transact w c ok s = (Inl e, s') \<longleftrightarrow>
     fault w (trace s) c = Some e \<and>
     s' = logged c (Raised e)
            (if raises w (trace s) c = None then the (timeout_of c) else latency w (trace s) c) s"
  by (auto simp: transact_def fault_def Let_def split: option.splits if_splits)

lemma follows_transact: "follows (transact w c ok) [c]"
  unfolding follows_def
proof (intro allI impI)
  fix s r s' assume h: "transact w c ok s = (r, s')"
  show "\<exists>n\<le>length [c]. calls s' = calls s @ take n [c] \<and> (\<forall>x. r = Inr x \<longrightarrow> n = length [c])"
  proof (cases r)
    case (Inl e)
    with h have "calls s' = calls s @ [c]" by (simp add: transact_Inl calls_logged)
    then show ?thesis by (intro exI[of _ 1]) simp
  next
    case (Inr x)
    with h have "calls s' = calls s @ [c]" by (simp add: transact_Inr calls_logged)
    then show ?thesis by (intro exI[of _ 1]) simp
  qed
qed

lemma follows_perform: "follows (perform w c) [c]"
  by (simp add: perform_def follows_transact)

lemma follows_return: "follows (return x) []"
  by (simp add: follows_def return_def)

lemma follows_raise: "follows (raise e) []"
  by (simp add: follows_def raise_def)

lemma follows_bind:
  assumes p: "follows p cs" and f: "\<And>x. follows (f x) ds"
  shows "follows (bind p f) (cs @ ds)"
  unfolding follows_def
proof (intro allI impI)
  fix s r s' assume h: "bind p f s = (r, s')"
  obtain r1 s1 where p1: "p s = (r1, s1)" by (cases "p s")
  from p p1 obtain n where n: "n \<le> length cs" "calls s1 = calls s @ take n cs"
      "\<forall>x. r1 = Inr x \<longrightarrow> n = length cs"
    unfolding follows_def by blast
  show "\<exists>n\<le>length (cs @ ds). calls s' = calls s @ take n (cs @ ds) \<and>
          (\<forall>x. r = Inr x \<longrightarrow> n = length (cs @ ds))"
  proof (cases r1)
    case (Inl e)
    with h p1 have "r = Inl e" "s' = s1" by (simp_all add: bind_def)
    with n show ?thesis by (intro exI[of _ n]) simp
  next
    case (Inr x)
    with h p1 have fx: "f x s1 = (r, s')" by (simp add: bind_def)
    from f[of x] fx obtain m where m: "m \<le> length ds" "calls s' = calls s1 @ take m ds"
        "\<forall>y. r = Inr y \<longrightarrow> m = length ds"
      unfolding follows_def by blast
    from Inr n have nl: "n = length cs" by simp
    with n m show ?thesis by (intro exI[of _ "length cs + m"]) simp
  qed
qed

lemma block_Cons_bind: "block (p # ps) = bind p (\<lambda>_. block ps)"
  by (rule ext) (simp add: bind_def split: prod.splits sum.splits)

lemma follows_block_Nil: "follows (block []) []"
  by (simp add: follows_def)

lemma follows_block_Cons:
  "follows p cs \<Longrightarrow> follows (block ps) ds \<Longrightarrow> follows (block (p # ps)) (cs @ ds)"
  unfolding block_Cons_bind by (rule follows_bind)

lemma follows_if_then: "follows p cs \<Longrightarrow> follows (if_then b p) (if b then cs else [])"
  by (simp add: if_then_def follows_return)

lemma transact_calls: "transact w c ok s = (r, s') \<Longrightarrow> calls s' = calls s @ [c]"
  by (cases r) (simp_all add: transact_Inl transact_Inr calls_logged)

lemma follows_download: "follows (download_parameters w) [DownloadParameters]"
  unfolding follows_def
proof (intro allI impI)
  fix s r s' assume h: "download_parameters w s = (r, s')"
  obtain r1 s1 where t: "transact w DownloadParameters (Parameters (parameters w (trace s))) s = (r1, s1)"
    by (cases "transact w DownloadParameters (Parameters (parameters w (trace s))) s")
  with h have "s' = s1" by (auto simp: download_parameters_def Let_def split: sum.splits)
  with transact_calls[OF t] have "calls s' = calls s @ [DownloadParameters]" by simp
  then show "\<exists>n\<le>length [DownloadParameters]. calls s' = calls s @ take n [DownloadParameters] \<and>
          (\<forall>x. r = Inr x \<longrightarrow> n = length [DownloadParameters])"
    by (intro exI[of _ 1]) simp
qed

lemma follows_mav_location: "follows (mav_location w) [MavLocation]"
  unfolding follows_def
proof (intro allI impI)
  fix s r s' assume h: "mav_location w s = (r, s')"
  obtain r1 s1 where t: "transact w MavLocation (Position (position w (trace s))) s = (r1, s1)"
    by (cases "transact w MavLocation (Position (position w (trace s))) s")
  with h have "s' = s1" by (auto simp: mav_location_def Let_def split: sum.splits)
  with transact_calls[OF t] have "calls s' = calls s @ [MavLocation]" by simp
  then show "\<exists>n\<le>length [MavLocation]. calls s' = calls s @ take n [MavLocation] \<and>
          (\<forall>x. r = Inr x \<longrightarrow> n = length [MavLocation])"
    by (intro exI[of _ 1]) simp
qed

lemma follows_assert_distance: "follows (assert_distance w a b mn mx) []"
  by (simp add: assert_distance_def Let_def follows_raise follows_return)

lemma follows_performs: "follows (block (map (perform w) cs)) cs"
proof (induction cs)
  case Nil
  show ?case by (simp add: follows_def)
next
  case (Cons c cs)
  have "follows (block (perform w c # map (perform w) cs)) ([c] @ cs)"
    by (rule follows_block_Cons[OF follows_perform Cons.IH])
  then show ?case by (simp del: block.simps)
qed

lemma reset_aircraft_performs: "reset_aircraft w = block (map (perform w) spec_reset_order)"
  by (simp add: reset_aircraft_def spec_reset_order_def)

lemma follows_reset: "follows (reset_aircraft w) spec_reset_order"
  by (simp add: reset_aircraft_performs follows_performs)

lemma follows_do_guided:
  "follows (do_guided w l) [ChangeMode ''GUIDED'', MissionItemIntSend l]"
  using follows_performs[of w "[ChangeMode ''GUIDED'', MissionItemIntSend l]"]
  by (simp add: do_guided_def)

lemma performs_outcome:
  "block (map (perform w) cs) s = (r, s') \<Longrightarrow>
     \<exists>n\<le>length cs. calls s' = calls s @ take n cs \<and>
       (r = Inr () \<longrightarrow> n = length cs) \<and>
       (\<forall>e. r = Inl e \<longrightarrow> 0 < n \<and> trace s' \<noteq> [] \<and> action (last (trace s')) = cs ! (n - 1) \<and>
          outcome (last (trace s')) = Raised e \<and>
          fault w (butlast (trace s')) (cs ! (n - 1)) = Some e)"
proof (induction cs arbitrary: s)
  case Nil
  then show ?case by auto
next
  case (Cons c cs)
  obtain r1 s1 where p1: "perform w c s = (r1, s1)" by (cases "perform w c s")
  show ?case
  proof (cases r1)
    case (Inl e)
    with Cons.prems p1 have rs: "r = Inl e" "s' = s1" by simp_all
    from p1 Inl have "fault w (trace s) c = Some e" "trace s1 = trace s @ [\<lparr>action = c, outcome = Raised e, started = clock s, stamp = clock s1\<rparr>]"
      by (simp_all add: perform_def transact_Inl trace_logged clock_logged)
    with rs transact_calls[of w c Returned s r1 s1] p1 show ?thesis
      by (intro exI[of _ 1]) (simp add: perform_def)
  next
    case (Inr u)
    with Cons.prems p1 have rest: "block (map (perform w) cs) s1 = (r, s')" by simp
    from Cons.IH[OF rest] obtain n where n: "n \<le> length cs" "calls s' = calls s1 @ take n cs"
      "r = Inr () \<longrightarrow> n = length cs"
      "\<forall>e. r = Inl e \<longrightarrow> 0 < n \<and> trace s' \<noteq> [] \<and> action (last (trace s')) = cs ! (n - 1) \<and>
          outcome (last (trace s')) = Raised e \<and>
          fault w (butlast (trace s')) (cs ! (n - 1)) = Some e" by blast
    from p1 have c1: "calls s1 = calls s @ [c]" by (simp add: perform_def transact_calls)
    have nth: "0 < n \<Longrightarrow> (c # cs) ! n = cs ! (n - 1)" by (cases n) simp_all
    from n c1 nth show ?thesis
      by (intro exI[of _ "Suc n"]) auto
  qed
qed

lemma follows_eq: "follows p cs \<Longrightarrow> cs = ds \<Longrightarrow> follows p ds"
  by simp

lemma follows_if:
  "follows p cs \<Longrightarrow> follows q ds \<Longrightarrow> follows (if b then p else q) (if b then cs else ds)"
  by simp

lemmas follows_intros =
  follows_block_Cons follows_block_Nil follows_perform follows_reset follows_do_guided
  follows_if_then follows_if follows_bind follows_mav_location follows_assert_distance
  follows_return follows_raise follows_download

lemma follows_mission:
  "follows (basic_auto_mission w heading target is_guided min_distance max_distance
              qassist_timeout qrtl_timeout)
     (spec_mission_order heading target is_guided qassist_timeout qrtl_timeout)"
  apply (rule follows_eq)
   apply (unfold basic_auto_mission_def)
   apply (rule follows_intros)+
  apply (simp add: spec_mission_order_def)
  done

lemma block_append:
  "block (ps @ qs) s =
     (case block ps s of (Inl e, s') \<Rightarrow> (Inl e, s') | (Inr _, s') \<Rightarrow> block qs s')"
  by (induction ps arbitrary: s) (auto split: prod.splits sum.splits)

lemma block_block: "block (block ps # qs) = block (ps @ qs)"
  by (rule ext) (simp add: block_append)

lemma block_second: "block (p # block ps # qs) = block (p # ps @ qs)"
  by (simp only: block_Cons_bind[of p] block_block)

lemma prearm_checks_performs: "prearm_checks w = block (map (perform w) spec_prearm_order)"
  by (simp add: prearm_checks_def spec_prearm_order_def reset_aircraft_performs block_second
      del: block.simps)

lemma performs_returned:
  "block (map (perform w) cs) s = (Inr (), s') \<Longrightarrow>
     map outcome (trace s') = map outcome (trace s) @ replicate (length cs) Returned"
proof (induction cs arbitrary: s)
  case Nil
  then show ?case by simp
next
  case (Cons c cs)
  obtain r1 s1 where p1: "perform w c s = (r1, s1)" by (cases "perform w c s")
  with Cons.prems obtain u where r1: "r1 = Inr u" and rest: "block (map (perform w) cs) s1 = (Inr (), s')"
    by (cases r1) simp_all
  from p1 r1 have "map outcome (trace s1) = map outcome (trace s) @ [Returned]"
    by (simp add: perform_def transact_Inr trace_logged)
  with Cons.IH[OF rest] show ?case by (simp add: replicate_app_Cons_same)
qed


subsection \<open>The reset sequence\<close>


lemmas run_simps =
  perform_def transact_def logged_def Let_def calls_def start_def
  download_parameters_def mav_location_def assert_distance_def
  return_def raise_def bind_def if_then_def


subsection \<open>The step order of a mission\<close>


lemma calm_guided_run:
  "basic_auto_mission calm 270 guided_loc True 0 50 1 5 start =
     (Inr (), snd (basic_auto_mission calm 270 guided_loc True 0 50 1 5 start))"
  by (simp add: basic_auto_mission_def reset_aircraft_def do_guided_def calm_def run_simps)


subsection \<open>The prearm sweep\<close>

text \<open>
  Claim C4. The prearm sweep makes its assertions in the specified order, each
  armability wait directly after the parameter or engine change it checks: below
  range, valid, above range, valid, engine stopped, engine started. When the sweep
  returns, every one of the waits has returned normally.
\<close>

theorem prearm_checks_order:
  assumes "prearm_checks w s = (r, s')"
  shows "\<exists>n\<le>length spec_prearm_order.
           calls s' = calls s @ take n spec_prearm_order \<and>
           (r = Inr () \<longrightarrow>
              n = length spec_prearm_order \<and>
              map outcome (trace s') =
                map outcome (trace s) @ replicate (length spec_prearm_order) Returned) \<and>
           (\<forall>e. r = Inl e \<longrightarrow>
              0 < n \<and> trace s' \<noteq> [] \<and>
              action (last (trace s')) = spec_prearm_order ! (n - 1) \<and>
              outcome (last (trace s')) = Raised e)"
proof -
  from assms have run: "block (map (perform w) spec_prearm_order) s = (r, s')"
    by (simp add: prearm_checks_performs)
  from performs_outcome[OF run] obtain n where n: "n \<le> length spec_prearm_order"
    "calls s' = calls s @ take n spec_prearm_order"
    "r = Inr () \<longrightarrow> n = length spec_prearm_order"
    "\<forall>e. r = Inl e \<longrightarrow> 0 < n \<and> trace s' \<noteq> [] \<and>
       action (last (trace s')) = spec_prearm_order ! (n - 1) \<and>
       outcome (last (trace s')) = Raised e \<and>
       fault w (butlast (trace s')) (spec_prearm_order ! (n - 1)) = Some e" by blast
  have "r = Inr () \<Longrightarrow> map outcome (trace s') =
      map outcome (trace s) @ replicate (length spec_prearm_order) Returned"
    using performs_returned[of w spec_prearm_order s s'] run by simp
  with n show ?thesis by (intro exI[of _ n]) auto
qed

lemma calm_prearm_run:
  "prearm_checks calm start = (Inr (), snd (prearm_checks calm start))"
  by (simp add: prearm_checks_def reset_aircraft_def calm_def run_simps)

theorem prearm_checks_order_witness:
  "prearm_checks calm start = (Inr (), snd (prearm_checks calm start)) \<and>
   calls (snd (prearm_checks calm start)) = spec_prearm_order \<and>
   map outcome (trace (snd (prearm_checks calm start))) =
     replicate (length spec_prearm_order) Returned"
proof -
  from prearm_checks_order[OF calm_prearm_run]
  obtain n where "calls (snd (prearm_checks calm start)) = calls start @ take n spec_prearm_order"
    "n = length spec_prearm_order"
    "map outcome (trace (snd (prearm_checks calm start))) =
       map outcome (trace start) @ replicate (length spec_prearm_order) Returned" by blast
  then have "calls (snd (prearm_checks calm start)) = spec_prearm_order"
    "map outcome (trace (snd (prearm_checks calm start))) =
       replicate (length spec_prearm_order) Returned"
    by (simp_all add: calls_def start_def)
  with calm_prearm_run show ?thesis by blast
qed

subsection \<open>The fallback waits\<close>

lemma filter_take_length: "length (filter P (take n xs)) \<le> length (filter P xs)"
proof -
  have "filter P xs = filter P (take n xs) @ filter P (drop n xs)"
    by (metis append_take_drop_id filter_append)
  then show ?thesis by simp
qed

text \<open>
  Claim C7. In one invocation of \<^verbatim>\<open>basic_auto_mission\<close> at most one wait for a text
  event is made: the wait for the assist-timeout text and the wait for the
  RTL-timeout text never both occur.
\<close>

theorem fallback_waits_exclusive:
  assumes "basic_auto_mission w heading target is_guided min_distance max_distance
             qassist_timeout qrtl_timeout s = (r, s')"
  shows "length (filter is_wait_text (drop (length (calls s)) (calls s'))) \<le> 1 \<and>
         \<not> (WaitText ''Q_ASSIST for too long'' \<in> set (drop (length (calls s)) (calls s')) \<and>
            WaitText ''QRTL for too long'' \<in> set (drop (length (calls s)) (calls s')))"
proof -
  let ?L = "spec_mission_order heading target is_guided qassist_timeout qrtl_timeout"
  from follows_mission[of w heading target is_guided min_distance max_distance
      qassist_timeout qrtl_timeout] assms
  obtain n where "calls s' = calls s @ take n ?L" unfolding follows_def by blast
  then have new: "drop (length (calls s)) (calls s') = take n ?L" by simp
  have one: "length (filter is_wait_text ?L) \<le> 1"
    by (simp add: spec_mission_order_def spec_reset_order_def)
  have "length (filter is_wait_text (take n ?L)) \<le> length (filter is_wait_text ?L)"
    by (rule filter_take_length)
  with one have le: "length (filter is_wait_text (take n ?L)) \<le> 1" by simp
  have "\<not> (WaitText ''Q_ASSIST for too long'' \<in> set ?L \<and> WaitText ''QRTL for too long'' \<in> set ?L)"
    by (simp add: spec_mission_order_def spec_reset_order_def)
  then have "\<not> (WaitText ''Q_ASSIST for too long'' \<in> set (take n ?L) \<and>
                WaitText ''QRTL for too long'' \<in> set (take n ?L))"
    by (meson in_set_takeD)
  with le new show ?thesis by simp
qed

theorem fallback_waits_exclusive_witness:
  "basic_auto_mission calm 270 guided_loc True 0 50 1 5 start =
     (Inr (), snd (basic_auto_mission calm 270 guided_loc True 0 50 1 5 start)) \<and>
   filter is_wait_text (calls (snd (basic_auto_mission calm 270 guided_loc True 0 50 1 5 start))) =
     [WaitText ''Q_ASSIST for too long''] \<and>
   \<not> (WaitText ''Q_ASSIST for too long'' \<in>
        set (drop (length (calls start))
              (calls (snd (basic_auto_mission calm 270 guided_loc True 0 50 1 5 start)))) \<and>
      WaitText ''QRTL for too long'' \<in>
        set (drop (length (calls start))
              (calls (snd (basic_auto_mission calm 270 guided_loc True 0 50 1 5 start)))))"
proof -
  have w: "filter is_wait_text
      (calls (snd (basic_auto_mission calm 270 guided_loc True 0 50 1 5 start))) =
     [WaitText ''Q_ASSIST for too long'']"
    by (simp add: basic_auto_mission_def reset_aircraft_def do_guided_def calm_def run_simps
        subtest_message_def)
  from fallback_waits_exclusive[OF calm_guided_run] calm_guided_run w show ?thesis by blast
qed

subsection \<open>Landing of a mission\<close>

lemma perform_Inr:
  "perform w c s = (Inr (), s') \<longleftrightarrow>
     fault w (trace s) c = None \<and> s' = logged c Returned (latency w (trace s) c) s"
  by (simp add: perform_def transact_Inr)

lemma mav_location_Inr:
  "mav_location w s = (Inr p, s') \<longleftrightarrow>
     fault w (trace s) MavLocation = None \<and> p = position w (trace s) \<and>
     s' = logged MavLocation (Position p) (latency w (trace s) MavLocation) s"
  by (auto simp: mav_location_def Let_def transact_Inr split: prod.splits sum.splits)
    (metis transact_Inl option.distinct(1))+

lemma bind_Inr:
  "bind p f s = (Inr y, s') \<longleftrightarrow> (\<exists>x s1. p s = (Inr x, s1) \<and> f x s1 = (Inr y, s'))"
  by (auto simp: bind_def split: prod.splits sum.splits)

lemma block_Cons_Inr:
  "block (p # ps) s = (Inr (), s') \<longleftrightarrow> (\<exists>s1. p s = (Inr (), s1) \<and> block ps s1 = (Inr (), s'))"
  by (auto split: prod.splits sum.splits)

lemma block_append_Inr:
  "block (ps @ qs) s = (Inr (), s') \<longleftrightarrow>
     (\<exists>s1. block ps s = (Inr (), s1) \<and> block qs s1 = (Inr (), s'))"
  by (auto simp: block_append split: prod.splits sum.splits)

lemma assert_distance_Inr:
  "assert_distance w a b mn mx s = (Inr (), s') \<longleftrightarrow>
     s' = s \<and> mn \<le> get_distance w a b \<and> get_distance w a b \<le> mx"
  by (auto simp: assert_distance_def Let_def raise_def return_def)

lemma fault_wait_disarmed:
  "fault w h (WaitDisarmed (Some t)) = None \<Longrightarrow> latency w h (WaitDisarmed (Some t)) \<le> t"
  by (auto simp: fault_def split: option.splits if_splits)

lemma landing_tail:
  assumes "block [perform w (WaitDisarmed (Some 600)),
                  bind (mav_location w) (\<lambda>here. assert_distance w target here mn mx),
                  perform w (EndSubtest m)] s1 = (Inr (), s')"
  shows "touchdown w target mn mx s'"
proof -
  from assms obtain s2 s3 where
    a: "perform w (WaitDisarmed (Some 600)) s1 = (Inr (), s2)" and
    b: "bind (mav_location w) (\<lambda>here. assert_distance w target here mn mx) s2 = (Inr (), s3)" and
    c: "perform w (EndSubtest m) s3 = (Inr (), s')"
    by (auto simp: block_Cons_Inr simp del: block.simps(2))
  let ?d = "latency w (trace s1) (WaitDisarmed (Some 600))"
  from a have s2: "s2 = logged (WaitDisarmed (Some 600)) Returned ?d s1" and d: "?d \<le> 600"
    by (simp_all add: perform_Inr fault_wait_disarmed)
  from b obtain p where p: "mav_location w s2 = (Inr p, s3)"
    and dist: "mn \<le> get_distance w target p" "get_distance w target p \<le> mx"
    by (auto simp: bind_Inr assert_distance_Inr)
  from p have s3: "s3 = logged MavLocation (Position p) (latency w (trace s2) MavLocation) s2"
    by (simp add: mav_location_Inr)
  from c have s': "s' = logged (EndSubtest m) Returned (latency w (trace s3) (EndSubtest m)) s3"
    by (simp add: perform_Inr)
  show ?thesis
    unfolding touchdown_def landing_def s' s3 s2
    using d dist by (simp add: trace_logged clock_logged)
qed

lemma mission_split:
  "basic_auto_mission w heading target is_guided mn mx qa qr =
     block (
       [perform w (StartSubtest (subtest_message heading target is_guided qa qr)),
        reset_aircraft w,
        if_then (\<not> is_guided) (perform w (UploadRallyPointsFromLocations [target])),
        if_then (qa \<noteq> 0) (perform w (SetParameter ''ENGOUT_QAST_TIME'' (of_int qa))),
        if_then (qr \<noteq> 0) (perform w (SetParameter ''ENGOUT_QRTL_TIME'' (of_int qr))),
        perform w (ChangeMode ''AUTO''),
        perform w ArmVehicle,
        perform w (SetRc 3 1500),
        perform w (WaitCurrentWaypoint 4 600),
        perform w (WaitHeading heading 5 300),
        perform w (RunCmd MAV_CMD_DO_ENGINE_CONTROL 0),
        if_then is_guided (block
          [perform w (WaitMode ''RTL''), perform w (DelaySimTime 10), do_guided w target]),
        (if qa \<noteq> 0 then perform w (WaitText ''Q_ASSIST for too long'')
         else if qr \<noteq> 0 then perform w (WaitText ''QRTL for too long'')
         else return ())] @
       [perform w (WaitDisarmed (Some 600)),
        bind (mav_location w) (\<lambda>here. assert_distance w target here mn mx),
        perform w (EndSubtest (subtest_message heading target is_guided qa qr))])"
  by (simp add: basic_auto_mission_def del: block.simps)

lemma mission_touchdown:
  assumes "basic_auto_mission w heading target is_guided mn mx qa qr s = (Inr (), s')"
  shows "touchdown w target mn mx s'"
proof -
  from assms obtain s1 where
    "block [perform w (WaitDisarmed (Some 600)),
            bind (mav_location w) (\<lambda>here. assert_distance w target here mn mx),
            perform w (EndSubtest (subtest_message heading target is_guided qa qr))] s1 = (Inr (), s')"
    unfolding mission_split block_append_Inr by blast
  then show ?thesis by (rule landing_tail)
qed



lemmas mission_run_simps =
  basic_auto_mission_def reset_aircraft_def do_guided_def subtest_message_def run_simps

subsection \<open>The example scenario\<close>

text \<open>
  Claim C3 as stated fails. In the example scenario (heading 270, the rally point as
  target, rally mode, distances 0 and 50) flown in the world \<open>slow\<close>, the run
  succeeds although the vehicle disarms 1103 time units after the switch to AUTO:
  the bound of 600 runs from the start of the wait for disarm, which is made after
  the waypoint wait, the heading wait and the engine failure.
\<close>

theorem example_disarm_after_auto_counterexample:
  "fst (basic_auto_mission slow 270 rally_loc False 0 50 0 0 start) = Inr () \<and>
   last_stamp (ChangeMode ''AUTO'')
     (trace (snd (basic_auto_mission slow 270 rally_loc False 0 50 0 0 start))) = Some 11 \<and>
   last_stamp (WaitDisarmed (Some 600))
     (trace (snd (basic_auto_mission slow 270 rally_loc False 0 50 0 0 start))) = Some 1114 \<and>
   \<not> disarmed_within_of_auto 600 (snd (basic_auto_mission slow 270 rally_loc False 0 50 0 0 start))"
  by (simp add: mission_run_simps slow_def calm_def last_stamp_def disarmed_within_of_auto_def)

text \<open>
  Claim C3, amended. The example scenario succeeds only if the wait for disarm returns
  within 600 time units of the moment it is made, and the location read afterwards is
  between 0 and 50 distance units from the target.
\<close>

theorem example_scenario_passes_only_if:
  assumes "basic_auto_mission w 270 rally_loc False 0 50 0 0 s = (Inr (), s')"
  shows "\<exists>e1 e2 p. landing s' = Some (e1, e2) \<and>
           action e1 = WaitDisarmed (Some 600) \<and> outcome e1 = Returned \<and>
           stamp e1 \<le> started e1 + 600 \<and>
           action e2 = MavLocation \<and> outcome e2 = Position p \<and>
           0 \<le> get_distance w rally_loc p \<and> get_distance w rally_loc p \<le> 50"
proof -
  from mission_touchdown[OF assms] have td: "touchdown w rally_loc 0 50 s'" .
  then obtain e1 e2 where l: "landing s' = Some (e1, e2)"
    by (auto simp: touchdown_def split: option.splits)
  with td show ?thesis
    by (cases "outcome e2") (simp_all add: touchdown_def)
qed

lemma calm_rally_run:
  "basic_auto_mission calm 270 rally_loc False 0 50 0 0 start =
     (Inr (), snd (basic_auto_mission calm 270 rally_loc False 0 50 0 0 start))"
  by (simp add: mission_run_simps calm_def)

theorem example_scenario_passes_only_if_witness:
  "basic_auto_mission calm 270 rally_loc False 0 50 0 0 start =
     (Inr (), snd (basic_auto_mission calm 270 rally_loc False 0 50 0 0 start)) \<and>
   (\<exists>e1 e2 p. landing (snd (basic_auto_mission calm 270 rally_loc False 0 50 0 0 start)) =
        Some (e1, e2) \<and>
      action e1 = WaitDisarmed (Some 600) \<and> outcome e1 = Returned \<and>
      stamp e1 \<le> started e1 + 600 \<and>
      action e2 = MavLocation \<and> outcome e2 = Position p \<and>
      0 \<le> get_distance calm rally_loc p \<and> get_distance calm rally_loc p \<le> 50)"
  using example_scenario_passes_only_if[OF calm_rally_run] calm_rally_run by blast

subsection \<open>The heading sweep\<close>





subsection \<open>An exception leaves the script\<close>

lemma block_Cons_Inl: "p s = (Inl e, s') \<Longrightarrow> block (p # ps) s = (Inl e, s')"
  by simp

lemma block_Cons_step: "p s = (Inr (), s1) \<Longrightarrow> block (p # ps) s = block ps s1"
  by simp

lemma block_abort:
  assumes "i < length ps" and "block (take i ps) s = (Inr (), si)" and "(ps ! i) si = (Inl e, s')"
  shows "block (ps @ qs) s = (Inl e, s')"
proof -
  have "ps = take i ps @ ps ! i # drop (Suc i) ps"
    by (rule id_take_nth_drop[OF assms(1)])
  then have "ps @ qs = (take i ps @ ps ! i # drop (Suc i) ps) @ qs"
    by (rule arg_cong[where f = "\<lambda>x. x @ qs"])
  then have "block (ps @ qs) s = block ((take i ps @ ps ! i # drop (Suc i) ps) @ qs) s"
    by (rule arg_cong[where f = "\<lambda>x. block x s"])
  also have "\<dots> = block (take i ps @ (ps ! i # (drop (Suc i) ps @ qs))) s"
    by (simp del: block.simps)
  also have "\<dots> = block (ps ! i # (drop (Suc i) ps @ qs)) si"
    using assms(2) by (simp add: block_append del: block.simps)
  also have "\<dots> = (Inl e, s')"
    using assms(3) by (rule block_Cons_Inl)
  finally show ?thesis .
qed

lemma script_abort:
  assumes "i < length (subscenarios w)"
      and "block (install_and_load w # take i (subscenarios w)) s = (Inr (), si)"
      and "(subscenarios w ! i) si = (Inl e, s')"
  shows "EngineOutScript w s = (Inl e, s')"
proof -
  have "EngineOutScript w s =
      block ((install_and_load w # subscenarios w) @ [remove_installed w]) s"
    by (simp add: EngineOutScript_def del: block.simps)
  also have "\<dots> = (Inl e, s')"
    using assms by (intro block_abort[where i = "Suc i" and si = si]) simp_all
  finally show ?thesis .
qed

text \<open>
  Claim C5, amended. \<^verbatim>\<open>EngineOutScript\<close> catches nothing: when the script has come to
  a sub-scenario and that sub-scenario raises, the exception is the result of the
  script and the script ends in the state the exception left, so that none of the
  remaining sub-scenarios executes. The script takes no configuration that would
  change this.
\<close>

theorem subscenario_failure_aborts:
  assumes "i < length (subscenarios w)"
      and "block (install_and_load w # take i (subscenarios w)) s = (Inr (), si)"
      and "(subscenarios w ! i) si = (Inl e, s')"
  shows "EngineOutScript w s = (Inl e, s')"
  using assms by (rule script_abort)

lemma no_rtl_install:
  "block (install_and_load no_rtl # take 0 (subscenarios no_rtl)) start =
     (Inr (), snd (install_and_load no_rtl start))"
  by (simp add: install_and_load_def no_rtl_def calm_def run_simps)

lemma no_rtl_guided:
  "(subscenarios no_rtl ! 0) (snd (install_and_load no_rtl start)) =
     (Inl AutoTestTimeoutException,
      snd (guided_override no_rtl (snd (install_and_load no_rtl start))))"
  by (simp add: subscenarios_def guided_override_def install_and_load_def no_rtl_def calm_def
      mission_run_simps)

lemma no_rtl_script:
  "EngineOutScript no_rtl start =
     (Inl AutoTestTimeoutException,
      snd (guided_override no_rtl (snd (install_and_load no_rtl start))))"
  by (rule script_abort[OF _ no_rtl_install no_rtl_guided]) (simp add: subscenarios_def)

theorem subscenario_failure_aborts_witness:
  "0 < length (subscenarios no_rtl) \<and>
   block (install_and_load no_rtl # take 0 (subscenarios no_rtl)) start =
     (Inr (), snd (install_and_load no_rtl start)) \<and>
   (subscenarios no_rtl ! 0) (snd (install_and_load no_rtl start)) =
     (Inl AutoTestTimeoutException,
      snd (guided_override no_rtl (snd (install_and_load no_rtl start)))) \<and>
   EngineOutScript no_rtl start =
     (Inl AutoTestTimeoutException,
      snd (guided_override no_rtl (snd (install_and_load no_rtl start))))"
proof -
  have l: "0 < length (subscenarios no_rtl)" by (simp add: subscenarios_def)
  from subscenario_failure_aborts[OF l no_rtl_install no_rtl_guided] l no_rtl_install no_rtl_guided
  show ?thesis by blast
qed

text \<open>
  Claim C5 as stated fails. In the world \<open>no_rtl\<close> the first sub-scenario (the guided
  override) times out waiting for RTL; the script ends with that timeout, its last call
  is the wait that failed, and no other sub-scenario has been started.
\<close>

theorem run_all_counterexample:
  "fst (EngineOutScript no_rtl start) = Inl AutoTestTimeoutException \<and>
   filter is_start_subtest (calls (snd (EngineOutScript no_rtl start))) =
     [StartSubtest (BasicMissionText 270 True 36.8192676 (-2.8719136))] \<and>
   last (calls (snd (EngineOutScript no_rtl start))) = WaitMode ''RTL''"
  unfolding no_rtl_script
  by (simp add: guided_override_def install_and_load_def no_rtl_def calm_def
      mission_run_simps guided_loc_def)

subsection \<open>Backup and restore of the parameters\<close>

lemma downloads_append: "downloads (xs @ ys) = downloads xs @ downloads ys"
  by (induction xs) (auto split: reply.splits)

lemma downloads_logged:
  "downloads (trace (logged c r d s)) =
     downloads (trace s) @ (case r of Parameters ps \<Rightarrow> [ps] | _ \<Rightarrow> [])"
  by (simp add: trace_logged downloads_append split: reply.splits)

lemma quiet_perform: "quiet (perform w c)"
  unfolding quiet_def
proof (intro allI impI)
  fix s r s' assume "perform w c s = (r, s')"
  then show "downloads (trace s') = downloads (trace s)"
    by (cases r) (simp_all add: perform_def transact_Inl transact_Inr downloads_logged)
qed

lemma quiet_return: "quiet (return x)"
  by (simp add: quiet_def return_def)

lemma quiet_raise: "quiet (raise e)"
  by (simp add: quiet_def raise_def)

lemma quiet_bind:
  assumes "quiet p" and "\<And>x. quiet (f x)"
  shows "quiet (bind p f)"
  unfolding quiet_def
proof (intro allI impI)
  fix s r s' assume h: "bind p f s = (r, s')"
  obtain r1 s1 where p1: "p s = (r1, s1)" by (cases "p s")
  with assms(1) have d1: "downloads (trace s1) = downloads (trace s)"
    unfolding quiet_def by blast
  show "downloads (trace s') = downloads (trace s)"
  proof (cases r1)
    case (Inl e)
    with h p1 d1 show ?thesis by (simp add: bind_def)
  next
    case (Inr x)
    with h p1 have "f x s1 = (r, s')" by (simp add: bind_def)
    with assms(2)[of x] d1 show ?thesis unfolding quiet_def by metis
  qed
qed

lemma quiet_block_Nil: "quiet (block [])"
  by (simp add: quiet_def)

lemma quiet_block_Cons: "quiet p \<Longrightarrow> quiet (block ps) \<Longrightarrow> quiet (block (p # ps))"
  unfolding block_Cons_bind by (rule quiet_bind)

lemma quiet_if_then: "quiet p \<Longrightarrow> quiet (if_then b p)"
  by (simp add: if_then_def quiet_return)

lemma quiet_performs: "quiet (block (map (perform w) cs))"
proof (induction cs)
  case Nil
  show ?case by (simp add: quiet_def)
next
  case (Cons c cs)
  have "quiet (block (perform w c # map (perform w) cs))"
    by (rule quiet_block_Cons[OF quiet_perform Cons.IH])
  then show ?case by (simp del: block.simps)
qed

lemma quiet_reset: "quiet (reset_aircraft w)"
  by (simp add: reset_aircraft_performs quiet_performs)

lemma quiet_subscript: "quiet (subscript d p)"
  by (simp add: subscript_def quiet_raise quiet_return split: option.splits)

lemmas quiet_intros =
  quiet_block_Cons quiet_block_Nil quiet_perform quiet_reset quiet_if_then quiet_bind
  quiet_return quiet_raise quiet_subscript

lemma quiet_print_differences: "quiet (print_differences w b a ks)"
proof (induction ks)
  case Nil
  show ?case by (simp add: quiet_return)
next
  case (Cons k ks)
  show ?case
  proof (cases "ignored k")
    case True
    with Cons show ?thesis by simp
  next
    case False
    have "quiet (bind (subscript b k) (\<lambda>x.
           bind (subscript a k) (\<lambda>y.
           bind (if_then (x \<noteq> y) (perform w (Progress (ChangedText k x y)))) (\<lambda>_.
           print_differences w b a ks))))"
      by (intro quiet_intros Cons)
    with False show ?thesis by simp
  qed
qed

lemma quietD: "quiet p \<Longrightarrow> p s = (r, s') \<Longrightarrow> downloads (trace s') = downloads (trace s)"
  unfolding quiet_def by blast

lemma download_Inl:
  assumes "download_parameters w s = (Inl e, s')"
  shows "downloads (trace s') = downloads (trace s)"
proof -
  let ?ps = "parameters w (trace s)"
  obtain r1 s1 where t: "transact w DownloadParameters (Parameters ?ps) s = (r1, s1)"
    by (cases "transact w DownloadParameters (Parameters ?ps) s")
  with assms obtain e1 where "r1 = Inl e1" "s' = s1"
    by (cases r1) (simp_all add: download_parameters_def Let_def)
  with t show ?thesis by (simp add: transact_Inl downloads_logged)
qed

lemma download_Inr:
  assumes "download_parameters w s = (Inr ps, s')"
  shows "downloads (trace s') = downloads (trace s) @ [ps]"
    and "last (calls s') = DownloadParameters"
proof -
  let ?ps = "parameters w (trace s)"
  obtain r1 s1 where t: "transact w DownloadParameters (Parameters ?ps) s = (r1, s1)"
    by (cases "transact w DownloadParameters (Parameters ?ps) s")
  with assms obtain u where u: "r1 = Inr u" "s' = s1" "ps = ?ps"
    by (cases r1) (simp_all add: download_parameters_def Let_def)
  with t show "downloads (trace s') = downloads (trace s) @ [ps]"
    by (simp add: transact_Inr downloads_logged)
  from t u show "last (calls s') = DownloadParameters"
    by (simp add: transact_calls)
qed

lemma bind_cases:
  assumes "bind p f s = (r, s')"
  obtains (fail) e where "p s = (Inl e, s')" "r = Inl e"
        | (go) x s1 where "p s = (Inr x, s1)" "f x s1 = (r, s')"
  using assms by (auto simp: bind_def split: prod.splits sum.splits)

lemma assert_same_Cons:
  "assert_same b a (k # ks) s =
     (if ignored k then assert_same b a ks s
      else case map_of b k of
             None \<Rightarrow> (Inl (KeyError k), s)
           | Some x \<Rightarrow>
               (case map_of a k of
                  None \<Rightarrow> (Inl (KeyError k), s)
                | Some y \<Rightarrow>
                    if x \<noteq> y then (Inl (ValueError (ChangedText k x y)), s)
                    else assert_same b a ks s))"
  by (simp add: bind_def subscript_def if_then_def raise_def return_def split: option.split)

lemma assert_same_Nil: "assert_same b a [] s = (Inr (), s)"
  by (simp add: return_def)

lemma assert_same_state: "assert_same b a ks s = (r, s') \<Longrightarrow> s' = s"
proof (induction ks)
  case Nil
  then show ?case by (simp add: return_def)
next
  case (Cons k ks)
  from Cons.prems have c: "assert_same b a (k # ks) s = (r, s')" .
  show ?case
  proof (cases "ignored k")
    case True
    with c Cons.IH show ?thesis by (simp only: assert_same_Cons if_True)
  next
    case False
    show ?thesis
    proof (cases "map_of b k")
      case None
      with c False show ?thesis by (simp add: assert_same_Cons del: assert_same.simps)
    next
      case (Some x)
      note bx = this
      show ?thesis
      proof (cases "map_of a k")
        case None
        with c False bx show ?thesis by (simp add: assert_same_Cons del: assert_same.simps)
      next
        case (Some y)
        with c False bx Cons.IH show ?thesis
          by (cases "x = y") (simp_all add: assert_same_Cons del: assert_same.simps)
      qed
    qed
  qed
qed

lemma assert_same_Inr:
  "assert_same b a ks s = (Inr (), s) \<longleftrightarrow>
     (\<forall>k\<in>set ks. \<not> ignored k \<longrightarrow> map_of a k = map_of b k \<and> map_of b k \<noteq> None)"
proof (induction ks)
  case Nil
  show ?case by (simp add: return_def)
next
  case (Cons k ks)
  show ?case
  proof (cases "ignored k")
    case True
    with Cons show ?thesis by (simp add: assert_same_Cons del: assert_same.simps)
  next
    case False
    show ?thesis
    proof (cases "map_of b k")
      case None
      with False show ?thesis by (simp add: assert_same_Cons del: assert_same.simps)
    next
      case (Some x)
      note bx = this
      show ?thesis
      proof (cases "map_of a k")
        case None
        with False bx show ?thesis by (simp add: assert_same_Cons del: assert_same.simps)
      next
        case (Some y)
        with False bx Cons show ?thesis
          by (cases "x = y") (auto simp add: assert_same_Cons simp del: assert_same.simps)
      qed
    qed
  qed
qed

lemma assert_same_Inl:
  "assert_same b a ks s = (Inl e, s') \<Longrightarrow>
     (\<exists>k x y. e = ValueError (ChangedText k x y)) \<or> (\<exists>k. e = KeyError k)"
proof (induction ks)
  case Nil
  then show ?case by (simp add: return_def)
next
  case (Cons k ks)
  from Cons.prems have c: "assert_same b a (k # ks) s = (Inl e, s')" .
  show ?case
  proof (cases "ignored k")
    case True
    with c Cons.IH show ?thesis by (simp only: assert_same_Cons if_True)
  next
    case False
    show ?thesis
    proof (cases "map_of b k")
      case None
      with c False show ?thesis by (auto simp add: assert_same_Cons simp del: assert_same.simps)
    next
      case (Some x)
      note bx = this
      show ?thesis
      proof (cases "map_of a k")
        case None
        with c False bx show ?thesis by (auto simp add: assert_same_Cons simp del: assert_same.simps)
      next
        case (Some y)
        with c False bx Cons.IH show ?thesis
          by (cases "x = y") (auto simp add: assert_same_Cons simp del: assert_same.simps)
      qed
    qed
  qed
qed

lemma quiet_assert_same: "quiet (assert_same b a ks)"
  unfolding quiet_def using assert_same_state by blast

lemma in_keys: "map_of d p = Some v \<Longrightarrow> p \<in> set (keys d)"
  by (force simp: keys_def dest!: map_of_SomeD)

lemma keys_in: "k \<in> set (keys d) \<Longrightarrow> \<exists>v. map_of d k = Some v"
proof -
  assume "k \<in> set (keys d)"
  then have "k \<in> fst ` set d" by (simp add: keys_def)
  then have "map_of d k \<noteq> None" by (simp add: map_of_eq_None_iff)
  then show ?thesis by blast
qed

lemma same_on_keys:
  "(\<forall>k\<in>set (keys b). \<not> ignored k \<longrightarrow> map_of a k = map_of b k \<and> map_of b k \<noteq> None) \<longleftrightarrow>
   (\<forall>p v. map_of b p = Some v \<and> \<not> ignored p \<longrightarrow> map_of a p = Some v)"
proof
  assume l: "\<forall>k\<in>set (keys b). \<not> ignored k \<longrightarrow> map_of a k = map_of b k \<and> map_of b k \<noteq> None"
  show "\<forall>p v. map_of b p = Some v \<and> \<not> ignored p \<longrightarrow> map_of a p = Some v"
  proof (intro allI impI)
    fix p v assume h: "map_of b p = Some v \<and> \<not> ignored p"
    then have "p \<in> set (keys b)" by (simp add: in_keys)
    with l h show "map_of a p = Some v" by simp
  qed
next
  assume r: "\<forall>p v. map_of b p = Some v \<and> \<not> ignored p \<longrightarrow> map_of a p = Some v"
  show "\<forall>k\<in>set (keys b). \<not> ignored k \<longrightarrow> map_of a k = map_of b k \<and> map_of b k \<noteq> None"
  proof (intro ballI impI)
    fix k assume k: "k \<in> set (keys b)" "\<not> ignored k"
    from keys_in[OF k(1)] obtain v where v: "map_of b k = Some v" by blast
    with r k(2) have "map_of a k = Some v" by blast
    with v show "map_of a k = map_of b k \<and> map_of b k \<noteq> None" by simp
  qed
qed

lemma assert_same_keys_Inr:
  "assert_same b a (keys b) s = (Inr (), s) \<longleftrightarrow>
     (\<forall>p v. map_of b p = Some v \<and> \<not> ignored p \<longrightarrow> map_of a p = Some v)"
  by (simp only: assert_same_Inr same_on_keys)

lemma check_block:
  assumes "block [assert_same b a (keys b), perform w (DisarmVehicle True),
                  perform w (WaitDisarmed None), perform w (EndSubtest m)] s = (r, s')"
  shows "downloads (trace s') = downloads (trace s)"
    and "r = Inr () \<Longrightarrow> (\<forall>p v. map_of b p = Some v \<and> \<not> ignored p \<longrightarrow> map_of a p = Some v)"
    and "\<exists>p v. map_of b p = Some v \<and> \<not> ignored p \<and> map_of a p \<noteq> Some v \<Longrightarrow>
           ((\<exists>p x y. r = Inl (ValueError (ChangedText p x y))) \<or> (\<exists>p. r = Inl (KeyError p))) \<and>
           s' = s"
proof -
  have "quiet (block [assert_same b a (keys b), perform w (DisarmVehicle True),
                  perform w (WaitDisarmed None), perform w (EndSubtest m)])"
    by (intro quiet_intros quiet_assert_same)
  from quietD[OF this assms] show "downloads (trace s') = downloads (trace s)" .
next
  assume "r = Inr ()"
  with assms obtain s1 where s1: "assert_same b a (keys b) s = (Inr (), s1)"
    by (auto simp: block_Cons_Inr simp del: block.simps(2))
  from assert_same_state[OF s1] s1 have "assert_same b a (keys b) s = (Inr (), s)" by simp
  then show "\<forall>p v. map_of b p = Some v \<and> \<not> ignored p \<longrightarrow> map_of a p = Some v"
    by (simp only: assert_same_keys_Inr)
next
  assume bad: "\<exists>p v. map_of b p = Some v \<and> \<not> ignored p \<and> map_of a p \<noteq> Some v"
  obtain r1 s1 where c: "assert_same b a (keys b) s = (r1, s1)"
    by (cases "assert_same b a (keys b) s")
  then have s1: "s1 = s" by (rule assert_same_state)
  have "r1 \<noteq> Inr ()"
  proof
    assume "r1 = Inr ()"
    with c s1 have "assert_same b a (keys b) s = (Inr (), s)" by simp
    then have "\<forall>p v. map_of b p = Some v \<and> \<not> ignored p \<longrightarrow> map_of a p = Some v"
      by (simp only: assert_same_keys_Inr)
    with bad show False by blast
  qed
  then obtain e where e: "r1 = Inl e" by (cases r1) auto
  with c have ce: "assert_same b a (keys b) s = (Inl e, s1)" by simp
  from block_Cons_Inl[of "assert_same b a (keys b)" s e s1, OF ce] assms
  have "r = Inl e" "s' = s1" by simp_all
  with assert_same_Inl[OF ce] s1
  show "((\<exists>p x y. r = Inl (ValueError (ChangedText p x y))) \<or> (\<exists>p. r = Inl (KeyError p))) \<and>
           s' = s" by simp
qed

text \<open>
  Claim C2. In the parameter-integrity sub-scenario, once the three downloads have
  taken place (the third after the engine is restored and the recovery text awaited):
  if the sub-scenario returns, every name of the pre-failure download that has no
  ignored prefix has exactly its pre-failure value in the third download; and if some
  such name has not, the sub-scenario ends in a raised error (the \<^verbatim>\<open>ValueError\<close> of the
  check, or the \<^verbatim>\<open>KeyError\<close> of its lookup) straight after the third download, nothing
  being logged in between.
\<close>

theorem restored_parameters_checked:
  assumes run: "params_backup_restore w s = (r, s')"
      and three: "downloads (trace s') = downloads (trace s) @ [before, after, restored]"
  shows "(r = Inr () \<longrightarrow>
            (\<forall>p v. map_of before p = Some v \<and> \<not> ignored p \<longrightarrow> map_of restored p = Some v)) \<and>
         ((\<exists>p v. map_of before p = Some v \<and> \<not> ignored p \<and> map_of restored p \<noteq> Some v) \<longrightarrow>
            ((\<exists>p x y. r = Inl (ValueError (ChangedText p x y))) \<or> (\<exists>p. r = Inl (KeyError p))) \<and>
            last (calls s') = DownloadParameters)"
proof -
  let ?A = "block [perform w (StartSubtest backup_restore_name), reset_aircraft w]"
  let ?B = "block
       [perform w (ChangeMode ''AUTO''),
        perform w ArmVehicle,
        perform w (SetRc 3 1500),
        perform w (WaitCurrentWaypoint 4 600),
        perform w (RunCmd MAV_CMD_DO_ENGINE_CONTROL 0),
        perform w (WaitText ''Engine out''),
        perform w (DelaySimTime 1)]"
  have qA: "quiet ?A" by (intro quiet_intros)
  have qB: "quiet ?B" by (intro quiet_intros)
  let ?G = ?thesis
  have short: "\<And>xs. downloads (trace s') = downloads (trace s) @ xs \<Longrightarrow> length xs < 3 \<Longrightarrow> ?G"
  proof -
    fix xs assume "downloads (trace s') = downloads (trace s) @ xs" "length xs < 3"
    with three have "xs = [before, after, restored]" "length xs < 3" by simp_all
    then show ?G by simp
  qed
  note run' = run[unfolded params_backup_restore_def]
  from run' show ?thesis
  proof (cases rule: bind_cases)
    case (fail e)
    from quietD[OF qA fail(1)] show ?thesis by (intro short[of "[]"]) simp_all
  next
    case (go u1 s1)
    note d1 = quietD[OF qA go(1)]
    from go(2) show ?thesis
    proof (cases rule: bind_cases)
      case (fail e)
      from download_Inl[OF fail(1)] d1 show ?thesis by (intro short[of "[]"]) simp_all
    next
      case (go pb s2)
      from download_Inr(1)[OF go(1)] d1
      have d2: "downloads (trace s2) = downloads (trace s) @ [pb]" by simp
      from go(2) show ?thesis
      proof (cases rule: bind_cases)
        case (fail e)
        from quietD[OF qB fail(1)] d2 show ?thesis by (intro short[of "[pb]"]) simp_all
      next
        case (go u3 s3)
        from quietD[OF qB go(1)] d2
        have d3: "downloads (trace s3) = downloads (trace s) @ [pb]" by simp
        from go(2) show ?thesis
        proof (cases rule: bind_cases)
          case (fail e)
          from download_Inl[OF fail(1)] d3 show ?thesis by (intro short[of "[pb]"]) simp_all
        next
          case (go pa s4)
          from download_Inr(1)[OF go(1)] d3
          have d4: "downloads (trace s4) = downloads (trace s) @ [pb, pa]" by simp
          have qC: "quiet (block
             [print_differences w pb pa (keys pb),
              perform w (RunCmd MAV_CMD_DO_ENGINE_CONTROL 1),
              perform w (WaitText ''Engine running''),
              perform w (DelaySimTime 1)])"
            by (intro quiet_intros quiet_print_differences)
          from go(2) show ?thesis
          proof (cases rule: bind_cases)
            case (fail e)
            from quietD[OF qC fail(1)] d4 show ?thesis by (intro short[of "[pb, pa]"]) simp_all
          next
            case (go u5 s5)
            from quietD[OF qC go(1)] d4
            have d5: "downloads (trace s5) = downloads (trace s) @ [pb, pa]" by simp
            from go(2) show ?thesis
            proof (cases rule: bind_cases)
              case (fail e)
              from download_Inl[OF fail(1)] d5 show ?thesis
                by (intro short[of "[pb, pa]"]) simp_all
            next
              case (go pr s6)
              from download_Inr(1)[OF go(1)] d5
              have d6: "downloads (trace s6) = downloads (trace s) @ [pb, pa, pr]" by simp
              note l6 = download_Inr(2)[OF go(1)]
              note fin = check_block[OF go(2)]
              from fin(1) d6 three have eq: "before = pb" "restored = pr" by simp_all
              have ok: "r = Inr () \<longrightarrow>
                  (\<forall>p v. map_of pb p = Some v \<and> \<not> ignored p \<longrightarrow> map_of pr p = Some v)"
                using fin(2) by blast
              have bad: "(\<exists>p v. map_of pb p = Some v \<and> \<not> ignored p \<and> map_of pr p \<noteq> Some v) \<longrightarrow>
                  ((\<exists>p x y. r = Inl (ValueError (ChangedText p x y))) \<or>
                   (\<exists>p. r = Inl (KeyError p))) \<and> last (calls s') = DownloadParameters"
                using fin(3) l6 by blast
              from ok bad show ?thesis unfolding eq by (rule conjI)
            qed
          qed
        qed
      qed
    qed
  qed
qed

lemmas params_run_simps =
  params_backup_restore_def reset_aircraft_def backup_restore_name_def keys_def
  ignored_def param_ignore_filter_def subscript_def run_simps

lemma calm_params_run:
  "params_backup_restore calm start = (Inr (), snd (params_backup_restore calm start))"
  by (simp add: params_run_simps calm_def)

lemma calm_params_downloads:
  "downloads (trace (snd (params_backup_restore calm start))) =
     downloads (trace start) @
     [[(''GLIDE_SPD'', 22), (''STAT_RUNTIME'', 9)],
      [(''GLIDE_SPD'', 22), (''STAT_RUNTIME'', 17)],
      [(''GLIDE_SPD'', 22), (''STAT_RUNTIME'', 21)]]"
  by (simp add: params_run_simps calm_def)

lemma drift_params_run:
  "params_backup_restore drift start =
     (fst (params_backup_restore drift start), snd (params_backup_restore drift start))"
  by simp

lemma drift_params_downloads:
  "downloads (trace (snd (params_backup_restore drift start))) =
     downloads (trace start) @
     [[(''GLIDE_SPD'', 22), (''STAT_RUNTIME'', 9)],
      [(''GLIDE_SPD'', 22), (''STAT_RUNTIME'', 17)],
      [(''GLIDE_SPD'', 25), (''STAT_RUNTIME'', 21)]]"
  by (simp add: params_run_simps drift_def calm_def)

lemma drift_differs:
  "\<exists>p v. map_of [(''GLIDE_SPD'', 22::real), (''STAT_RUNTIME'', 9)] p = Some v \<and> \<not> ignored p \<and>
     map_of [(''GLIDE_SPD'', 25::real), (''STAT_RUNTIME'', 21)] p \<noteq> Some v"
  by (intro exI[of _ "''GLIDE_SPD''"] exI[of _ 22])
    (simp add: ignored_def param_ignore_filter_def)

theorem restored_parameters_checked_witness:
  "params_backup_restore calm start = (Inr (), snd (params_backup_restore calm start)) \<and>
   \<not> (\<exists>p v. map_of [(''GLIDE_SPD'', 22::real), (''STAT_RUNTIME'', 9)] p = Some v \<and> \<not> ignored p \<and>
      map_of [(''GLIDE_SPD'', 22::real), (''STAT_RUNTIME'', 21)] p \<noteq> Some v) \<and>
   ((\<exists>p x y. fst (params_backup_restore drift start) = Inl (ValueError (ChangedText p x y))) \<or>
    (\<exists>p. fst (params_backup_restore drift start) = Inl (KeyError p))) \<and>
   last (calls (snd (params_backup_restore drift start))) = DownloadParameters"
  using restored_parameters_checked[OF calm_params_run calm_params_downloads]
    restored_parameters_checked[OF drift_params_run drift_params_downloads]
    calm_params_run drift_differs
  by blast

subsection \<open>The lookup of the check\<close>

lemma assert_same_agree:
  "(\<forall>k\<in>set ks. map_of a k = map_of a' k) \<Longrightarrow> assert_same b a ks s = assert_same b a' ks s"
proof (induction ks)
  case Nil
  show ?case by (simp add: return_def)
next
  case (Cons k ks)
  then have "map_of a k = map_of a' k" "assert_same b a ks s = assert_same b a' ks s"
    by simp_all
  then show ?case by (simp only: assert_same_Cons)
qed

lemma assert_same_missing:
  assumes "find (\<lambda>k. \<not> ignored k \<and> map_of a k \<noteq> map_of b k) ks = Some p"
      and "map_of a p = None"
      and "\<forall>k\<in>set ks. map_of b k \<noteq> None"
  shows "assert_same b a ks s = (Inl (KeyError p), s)"
  using assms
proof (induction ks)
  case Nil
  then show ?case by simp
next
  case (Cons k ks)
  from Cons.prems(3) obtain x where x: "map_of b k = Some x" by auto
  show ?case
  proof (cases "\<not> ignored k \<and> map_of a k \<noteq> map_of b k")
    case True
    with Cons.prems(1) have "k = p" by simp
    with True Cons.prems(2) x show ?thesis
      by (simp add: assert_same_Cons del: assert_same.simps)
  next
    case False
    with Cons.prems have "assert_same b a ks s = (Inl (KeyError p), s)"
      by (intro Cons.IH) simp_all
    with False x show ?thesis
      by (auto simp add: assert_same_Cons simp del: assert_same.simps)
  qed
qed

lemma ignored_prefixes:
  "ignored p \<longleftrightarrow>
     prefix ''STAT'' p \<or> prefix ''BARO'' p \<or> prefix ''SERVO'' p \<or> prefix ''Q_P_ACCZ_IMAX'' p"
  by (simp add: ignored_def param_ignore_filter_def)

text \<open>
  Claim C10. The check after the restore runs over the names of the pre-failure
  download only: two post-restore downloads that agree on those names give the same
  result, so a name that is only in the post-restore download is never compared. Its
  lookup in the post-restore download is unguarded: when the first name to fail the
  check is missing there, the result is \<^verbatim>\<open>KeyError\<close> for that name and not the
  \<^verbatim>\<open>ValueError\<close> message. A name is ignored exactly when it starts with \<^verbatim>\<open>STAT\<close>,
  \<^verbatim>\<open>BARO\<close>, \<^verbatim>\<open>SERVO\<close> or \<^verbatim>\<open>Q_P_ACCZ_IMAX\<close>.
\<close>

theorem restore_check_lookup:
  "((\<forall>k\<in>set (keys before). map_of after k = map_of after' k) \<longrightarrow>
      assert_same before after (keys before) s = assert_same before after' (keys before) s) \<and>
   (first_offender before after = Some p \<and> map_of after p = None \<longrightarrow>
      assert_same before after (keys before) s = (Inl (KeyError p), s)) \<and>
   (ignored p \<longleftrightarrow>
      prefix ''STAT'' p \<or> prefix ''BARO'' p \<or> prefix ''SERVO'' p \<or> prefix ''Q_P_ACCZ_IMAX'' p)"
proof (intro conjI impI)
  assume "\<forall>k\<in>set (keys before). map_of after k = map_of after' k"
  then show "assert_same before after (keys before) s = assert_same before after' (keys before) s"
    by (rule assert_same_agree)
next
  assume h: "first_offender before after = Some p \<and> map_of after p = None"
  have "\<forall>k\<in>set (keys before). map_of before k \<noteq> None"
    using keys_in by fastforce
  with h show "assert_same before after (keys before) s = (Inl (KeyError p), s)"
    unfolding first_offender_def by (intro assert_same_missing) simp_all
next
  show "ignored p \<longleftrightarrow>
      prefix ''STAT'' p \<or> prefix ''BARO'' p \<or> prefix ''SERVO'' p \<or> prefix ''Q_P_ACCZ_IMAX'' p"
    by (rule ignored_prefixes)
qed

theorem restore_check_lookup_witness:
  "list_all (\<lambda>k. map_of [(''STAT_RUNTIME'', 21::real), (''NEW_PARAM'', 1)] k =
               map_of [(''STAT_RUNTIME'', 21::real)] k)
     (keys [(''GLIDE_SPD'', 22), (''STAT_RUNTIME'', 9)]) \<and>
   first_offender [(''GLIDE_SPD'', 22), (''STAT_RUNTIME'', 9)]
     [(''STAT_RUNTIME'', 21), (''NEW_PARAM'', 1)] = Some ''GLIDE_SPD'' \<and>
   map_of [(''STAT_RUNTIME'', 21::real), (''NEW_PARAM'', 1)] ''GLIDE_SPD'' = None \<and>
   assert_same [(''GLIDE_SPD'', 22), (''STAT_RUNTIME'', 9)]
     [(''STAT_RUNTIME'', 21), (''NEW_PARAM'', 1)]
     (keys [(''GLIDE_SPD'', 22), (''STAT_RUNTIME'', 9)]) start = (Inl (KeyError ''GLIDE_SPD''), start) \<and>
   assert_same [(''GLIDE_SPD'', 22), (''STAT_RUNTIME'', 9)]
     [(''STAT_RUNTIME'', 21)]
     (keys [(''GLIDE_SPD'', 22), (''STAT_RUNTIME'', 9)]) start = (Inl (KeyError ''GLIDE_SPD''), start) \<and>
   ignored ''STAT_RUNTIME'' \<and> \<not> ignored ''GLIDE_SPD''"
proof -
  let ?B = "[(''GLIDE_SPD'', 22::real), (''STAT_RUNTIME'', 9)]"
  let ?A = "[(''STAT_RUNTIME'', 21::real), (''NEW_PARAM'', 1)]"
  let ?A' = "[(''STAT_RUNTIME'', 21::real)]"
  have a: "\<forall>k\<in>set (keys ?B). map_of ?A k = map_of ?A' k"
    by (simp add: keys_def)
  have b: "first_offender ?B ?A = Some ''GLIDE_SPD''"
    by (simp add: first_offender_def keys_def ignored_def param_ignore_filter_def)
  have c: "map_of ?A ''GLIDE_SPD'' = None"
    by simp
  note glide = restore_check_lookup[of ?B ?A ?A' start "''GLIDE_SPD''"]
  note stat = restore_check_lookup[of ?B ?A ?A' start "''STAT_RUNTIME''"]
  from glide a have e1: "assert_same ?B ?A (keys ?B) start = assert_same ?B ?A' (keys ?B) start"
    by (rule conjunct1[THEN mp])
  from glide have "first_offender ?B ?A = Some ''GLIDE_SPD'' \<and> map_of ?A ''GLIDE_SPD'' = None \<longrightarrow>
      assert_same ?B ?A (keys ?B) start = (Inl (KeyError ''GLIDE_SPD''), start)"
    by (rule conjunct2[THEN conjunct1])
  with b c have e2: "assert_same ?B ?A (keys ?B) start = (Inl (KeyError ''GLIDE_SPD''), start)"
    by blast
  from e1 e2 have e3: "assert_same ?B ?A' (keys ?B) start = (Inl (KeyError ''GLIDE_SPD''), start)"
    by simp
  from glide have "ignored ''GLIDE_SPD'' \<longleftrightarrow> prefix ''STAT'' ''GLIDE_SPD'' \<or>
      prefix ''BARO'' ''GLIDE_SPD'' \<or> prefix ''SERVO'' ''GLIDE_SPD'' \<or>
      prefix ''Q_P_ACCZ_IMAX'' ''GLIDE_SPD''"
    by (rule conjunct2[THEN conjunct2])
  then have g: "\<not> ignored ''GLIDE_SPD''" by simp
  from stat have "ignored ''STAT_RUNTIME'' \<longleftrightarrow> prefix ''STAT'' ''STAT_RUNTIME'' \<or>
      prefix ''BARO'' ''STAT_RUNTIME'' \<or> prefix ''SERVO'' ''STAT_RUNTIME'' \<or>
      prefix ''Q_P_ACCZ_IMAX'' ''STAT_RUNTIME''"
    by (rule conjunct2[THEN conjunct2])
  then have st: "ignored ''STAT_RUNTIME''" by simp
  from a have a': "list_all (\<lambda>k. map_of ?A k = map_of ?A' k) (keys ?B)"
    by (simp only: list_all_iff)
  from a' b c e2 e3 st g show ?thesis by (intro conjI)
qed

end
